theory Spec2Isabelle
  imports Complex_Main "HOL-Library.Multiset"
begin

section \<open>Time\<close>

text \<open>
  A Python \<open>datetime\<close> has microsecond resolution and a \<open>timedelta\<close> is a signed number
  of microseconds, so a point in time is the integer count of microseconds since the epoch.
  Every call of \<open>datetime.now()\<close> in the source is an explicit argument \<open>now\<close> of the model.
\<close>

type_synonym datetime = int

definition seconds :: "int \<Rightarrow> int" where
  "seconds n = n * 1000000"

definition minutes :: "int \<Rightarrow> int" where
  "minutes n = n * 60000000"

definition hours_delta :: "int \<Rightarrow> int" where
  "hours_delta n = n * 3600000000"

section \<open>backend/logging\_config.py: RateLimiter\<close>

text \<open>
  The two buckets are \<open>defaultdict(list)\<close>: reading \<open>d[k]\<close> for a missing key stores and
  returns an empty list. \<open>dd_get\<close> is the list that the read returns, \<open>dd_touch\<close> the
  dictionary after the read.
\<close>

type_synonym buckets = "string \<rightharpoonup> datetime list"

definition dd_get :: "buckets \<Rightarrow> string \<Rightarrow> datetime list" where
  "dd_get d k = (case d k of None \<Rightarrow> [] | Some xs \<Rightarrow> xs)"

definition dd_touch :: "buckets \<Rightarrow> string \<Rightarrow> buckets" where
  "dd_touch d k = (case d k of None \<Rightarrow> d(k \<mapsto> []) | Some xs \<Rightarrow> d)"

record rate_limiter =
  rpm_limit :: int
  rph_limit :: int
  minute_buckets :: buckets
  hour_buckets :: buckets

text \<open>\<open>RateLimiter.__init__\<close>, and the global instance built with the default limits.\<close>

definition init_rate_limiter :: "int \<Rightarrow> int \<Rightarrow> rate_limiter" where
  "init_rate_limiter requests_per_minute requests_per_hour =
     \<lparr>rpm_limit = requests_per_minute, rph_limit = requests_per_hour,
      minute_buckets = Map.empty, hour_buckets = Map.empty\<rparr>"

definition global_rate_limiter :: rate_limiter where
  "global_rate_limiter = init_rate_limiter 60 1000"

text \<open>
  The \<open>HTTPException\<close> with status 429 raised by \<open>check_rate_limit\<close>; the constructor
  tells which of the two detail messages it carries, with the limit printed in it.
\<close>

datatype rate_error = Per_minute_exceeded int | Per_hour_exceeded int

datatype verdict = Allowed | Denied rate_error

text \<open>
  \<open>check_rate_limit\<close> for the client id that \<open>_get_client_id\<close> extracted, at clock
  reading \<open>now\<close>. The limiter is returned in both outcomes, since the bucket reads happen
  before the exception is raised.
\<close>

definition check_rate_limit :: "rate_limiter \<Rightarrow> string \<Rightarrow> datetime \<Rightarrow> verdict \<times> rate_limiter" where
  "check_rate_limit rl client_id now =
     (let mb = dd_touch (minute_buckets rl) client_id;
          minute_requests = filter (\<lambda>ts. ts > now - minutes 1) (dd_get mb client_id);
          rl1 = rl\<lparr>minute_buckets := mb\<rparr>
      in if int (length minute_requests) \<ge> rpm_limit rl
         then (Denied (Per_minute_exceeded (rpm_limit rl)), rl1)
         else
           (let hb = dd_touch (hour_buckets rl1) client_id;
                hour_requests = filter (\<lambda>ts. ts > now - hours_delta 1) (dd_get hb client_id);
                rl2 = rl1\<lparr>hour_buckets := hb\<rparr>
            in if int (length hour_requests) \<ge> rph_limit rl
               then (Denied (Per_hour_exceeded (rph_limit rl)), rl2)
               else (Allowed,
                     rl2\<lparr>minute_buckets := mb(client_id \<mapsto> dd_get mb client_id @ [now]),
                         hour_buckets := hb(client_id \<mapsto> dd_get hb client_id @ [now])\<rparr>)))"

text \<open>
  \<open>_cleanup_old_requests\<close>: every key of a bucket dictionary keeps the timestamps newer
  than the cutoff and is deleted when none is left.
\<close>

definition prune :: "datetime \<Rightarrow> buckets \<Rightarrow> buckets" where
  "prune cutoff d =
     (\<lambda>client_id. case d client_id of
        None \<Rightarrow> None
      | Some xs \<Rightarrow> (let ys = filter (\<lambda>ts. ts > cutoff) xs in if ys = [] then None else Some ys))"

definition cleanup_old_requests :: "rate_limiter \<Rightarrow> datetime \<Rightarrow> rate_limiter" where
  "cleanup_old_requests rl now =
     (let cutoff_minute = now - minutes 2;
          rl1 = rl\<lparr>minute_buckets := prune cutoff_minute (minute_buckets rl)\<rparr>;
          cutoff_hour = now - hours_delta 2
      in rl1\<lparr>hour_buckets := prune cutoff_hour (hour_buckets rl1)\<rparr>)"

text \<open>The windows of a client: what a read of its two buckets returns.\<close>

definition minute_window :: "rate_limiter \<Rightarrow> string \<Rightarrow> datetime list" where
  "minute_window rl client_id = dd_get (minute_buckets rl) client_id"

definition hour_window :: "rate_limiter \<Rightarrow> string \<Rightarrow> datetime list" where
  "hour_window rl client_id = dd_get (hour_buckets rl) client_id"

text \<open>The counts that \<open>check_rate_limit\<close> compares with the limits.\<close>

definition minute_count :: "rate_limiter \<Rightarrow> string \<Rightarrow> datetime \<Rightarrow> int" where
  "minute_count rl client_id now =
     int (length (filter (\<lambda>ts. ts > now - minutes 1) (minute_window rl client_id)))"

definition hour_count :: "rate_limiter \<Rightarrow> string \<Rightarrow> datetime \<Rightarrow> int" where
  "hour_count rl client_id now =
     int (length (filter (\<lambda>ts. ts > now - hours_delta 1) (hour_window rl client_id)))"

text \<open>The bucket invariant: the minute window is a sub-multiset of the hour window.\<close>

definition buckets_nested :: "rate_limiter \<Rightarrow> bool" where
  "buckets_nested rl = (\<forall>client_id. mset (minute_window rl client_id) \<subseteq># mset (hour_window rl client_id))"

section \<open>backend/logging\_config.py: Cache\<close>

record 'v cache_entry =
  entry_value :: 'v
  entry_expiry :: datetime

record 'v cache =
  store :: "string \<rightharpoonup> 'v cache_entry"
  default_ttl :: int

definition init_cache :: "int \<Rightarrow> 'v cache" where
  "init_cache ttl = \<lparr>store = Map.empty, default_ttl = ttl\<rparr>"

text \<open>\<open>Cache.set\<close>; the optional \<open>ttl\<close> is in seconds.\<close>

definition set_cache :: "'v cache \<Rightarrow> string \<Rightarrow> 'v \<Rightarrow> int option \<Rightarrow> datetime \<Rightarrow> 'v cache" where
  "set_cache c key v ttl now =
     (let ttl' = (case ttl of None \<Rightarrow> default_ttl c | Some t \<Rightarrow> t);
          expiry = now + seconds ttl'
      in c\<lparr>store := (store c)(key \<mapsto> \<lparr>entry_value = v, entry_expiry = expiry\<rparr>)\<rparr>)"

text \<open>\<open>Cache.get\<close>: the returned value (\<open>None\<close> for Python's \<open>None\<close>) and the cache after the call.\<close>

definition get_cache :: "'v cache \<Rightarrow> string \<Rightarrow> datetime \<Rightarrow> 'v option \<times> 'v cache" where
  "get_cache c key now =
     (case store c key of
        None \<Rightarrow> (None, c)
      | Some entry \<Rightarrow>
          if now > entry_expiry entry
          then (None, c\<lparr>store := (store c)(key := None)\<rparr>)
          else (Some (entry_value entry), c))"

definition delete_cache :: "'v cache \<Rightarrow> string \<Rightarrow> 'v cache" where
  "delete_cache c key = (if key \<in> dom (store c) then c\<lparr>store := (store c)(key := None)\<rparr> else c)"

definition clear_cache :: "'v cache \<Rightarrow> 'v cache" where
  "clear_cache c = c\<lparr>store := Map.empty\<rparr>"

text \<open>One pass of the body of \<open>Cache._cleanup_task\<close>, at clock reading \<open>now\<close>.\<close>

definition cleanup_sweep :: "'v cache \<Rightarrow> datetime \<Rightarrow> 'v cache" where
  "cleanup_sweep c now =
     c\<lparr>store := (\<lambda>key. case store c key of
                      None \<Rightarrow> None
                    | Some entry \<Rightarrow> if now > entry_expiry entry then None else Some entry)\<rparr>"

text \<open>
  The verdicts of successive \<open>check_rate_limit\<close> calls of one client, each call working on
  the limiter that the call before left behind.
\<close>

fun successive_calls :: "rate_limiter \<Rightarrow> string \<Rightarrow> datetime list \<Rightarrow> verdict list" where
  "successive_calls rl client_id [] = []"
| "successive_calls rl client_id (now # later) =
     fst (check_rate_limit rl client_id now)
       # successive_calls (snd (check_rate_limit rl client_id now)) client_id later"

section \<open>backend/ml\_models.py: AQIPredictionModel\<close>

text \<open>
  Numbers are real numbers: the model idealises the floating-point arithmetic of the source
  and keeps its formulas, comparisons and rounding steps. A historical record and a weather
  reading are dictionaries from field names to numbers.
\<close>

type_synonym py_dict = "string \<rightharpoonup> real"
type_synonym feature_vector = "real list"
type_synonym feature_window = "real list list"

text \<open>
  The exceptions that can leave \<open>predict\<close>: the \<open>IndexError\<close> of a list index out of
  range, and whatever the call of the sequence model raises.
\<close>

datatype py_error = IndexError | Sequence_model_error

text \<open>\<open>d.get(k, dflt)\<close>.\<close>

definition dict_get :: "py_dict \<Rightarrow> string \<Rightarrow> real \<Rightarrow> real" where
  "dict_get d k dflt = (case d k of None \<Rightarrow> dflt | Some v \<Rightarrow> v)"

text \<open>
  The subscript \<open>xs[i]\<close> of a Python list: \<open>i\<close> from \<open>0\<close> to \<open>len(xs) - 1\<close> reads from the
  front, \<open>i\<close> from \<open>-len(xs)\<close> to \<open>-1\<close> reads from the back, any other \<open>i\<close> raises.
\<close>

definition py_index :: "'a list \<Rightarrow> int \<Rightarrow> py_error + 'a" where
  "py_index xs i =
     (if 0 \<le> i \<and> i < int (length xs) then Inr (xs ! nat i)
      else if i < 0 \<and> - int (length xs) \<le> i then Inr (xs ! nat (int (length xs) + i))
      else Inl IndexError)"

text \<open>\<open>xs[-n:]\<close> for a positive \<open>n\<close>.\<close>

definition last_n :: "nat \<Rightarrow> 'a list \<Rightarrow> 'a list" where
  "last_n n xs = drop (length xs - n) xs"

text \<open>
  \<open>round(x, 1)\<close>: to one decimal place, a tie going to the even neighbour.
\<close>

definition py_round :: "real \<Rightarrow> int" where
  "py_round x =
     (let f = \<lfloor>x\<rfloor>; d = x - of_int f
      in if d < 1 / 2 then f else if 1 / 2 < d then f + 1 else if even f then f else f + 1)"

definition round1 :: "real \<Rightarrow> real" where
  "round1 x = of_int (py_round (x * 10)) / 10"

definition sequence_length :: nat where
  "sequence_length = 24"

definition n_features :: nat where
  "n_features = 10"

text \<open>
  The two point estimators are objects that may lack a \<open>predict\<close> attribute, and whose
  \<open>predict\<close> may raise (\<open>None\<close>). The sequence model is called directly; \<open>None\<close> is a call
  that raises.
\<close>

datatype estimator = No_predict | Predictor "feature_vector \<Rightarrow> real option"

type_synonym sequence_model = "feature_window \<Rightarrow> real option"

text \<open>
  One dictionary of the list that \<open>predict\<close> returns. The \<open>timestamp\<close> is the point in time
  whose ISO string the source stores.
\<close>

record forecast_point =
  hour :: int
  timestamp :: datetime
  predicted_aqi :: real
  confidence :: real
  lower_bound :: real
  upper_bound :: real
  risk_level :: string

text \<open>\<open>_safe_predict\<close>: the \<open>try\<close> with a bare \<open>except\<close>, and the fallback value.\<close>

definition safe_predict :: "estimator \<Rightarrow> feature_vector \<Rightarrow> real" where
  "safe_predict model features =
     (case model of
        No_predict \<Rightarrow> 150
      | Predictor p \<Rightarrow> (case p features of Some y \<Rightarrow> y | None \<Rightarrow> 150))"

text \<open>\<open>_prepare_features\<close>: one vector per record of the last 24, padded at the front.\<close>

definition record_features :: "py_dict \<Rightarrow> feature_vector" where
  "record_features r =
     [dict_get r ''aqi'' 150, dict_get r ''pm25'' 90, dict_get r ''pm10'' 140,
      dict_get r ''no2'' 40, dict_get r ''so2'' 10, dict_get r ''co'' 1.5,
      dict_get r ''o3'' 30, dict_get r ''temp'' 25, dict_get r ''humidity'' 60,
      dict_get r ''wind_speed'' 10]"

function pad_features :: "feature_window \<Rightarrow> feature_window" where
  "pad_features features_list =
     (if length features_list < sequence_length
      then pad_features
             ((case features_list of [] \<Rightarrow> replicate n_features 150 | first # rest \<Rightarrow> first)
              # features_list)
      else features_list)"
  by pat_completeness auto
termination
  by (relation "measure (\<lambda>features_list. sequence_length - length features_list)") auto

definition prepare_features :: "py_dict list \<Rightarrow> py_dict list \<Rightarrow> feature_window" where
  "prepare_features historical_data weather_forecast =
     pad_features (map record_features (last_n sequence_length historical_data))"

text \<open>
  \<open>_create_feature_vector\<close>: the reading of hour \<open>h\<close>, or the last reading when the
  forecast is shorter; on an empty forecast the index \<open>-1\<close> raises.
\<close>

definition create_feature_vector :: "real \<Rightarrow> int \<Rightarrow> py_dict list \<Rightarrow> py_error + feature_vector" where
  "create_feature_vector aqi h weather_forecast =
     (case (if h < int (length weather_forecast) then py_index weather_forecast h
            else py_index weather_forecast (- 1)) of
        Inl err \<Rightarrow> Inl err
      | Inr weather \<Rightarrow>
          Inr [aqi, aqi * 0.6, aqi * 0.8, aqi * 0.15, aqi * 0.08, aqi * 0.01, aqi * 0.12,
               dict_get weather ''temp'' 25, dict_get weather ''humidity'' 60,
               dict_get weather ''wind_speed'' 10])"

definition calculate_confidence :: "int \<Rightarrow> int \<Rightarrow> real" where
  "calculate_confidence h total_hours =
     (let base_confidence = 94.0; decay_rate = 0.4;
          c = base_confidence - (of_int h * decay_rate)
      in max 70.0 (min 95.0 c))"

definition get_risk_level :: "real \<Rightarrow> string" where
  "get_risk_level aqi =
     (if aqi \<le> 50 then ''Good''
      else if aqi \<le> 100 then ''Moderate''
      else if aqi \<le> 200 then ''Poor''
      else if aqi \<le> 300 then ''Very Poor''
      else ''Severe'')"

text \<open>
  The dictionary appended in iteration \<open>i\<close> of the loop of \<open>predict\<close>, from the weighted
  ensemble value and the reading \<open>now\<close> of the clock in that iteration.
\<close>

definition prediction_entry :: "int \<Rightarrow> int \<Rightarrow> datetime \<Rightarrow> real \<Rightarrow> forecast_point" where
  "prediction_entry i total_hours now ensemble_pred =
     (let c = calculate_confidence i total_hours;
          lower = ensemble_pred * (1 - (1 - c / 100) * 0.2);
          upper = ensemble_pred * (1 + (1 - c / 100) * 0.2)
      in \<lparr>hour = i,
          timestamp = now + hours_delta i,
          predicted_aqi = max 0 (round1 ensemble_pred),
          confidence = round1 c,
          lower_bound = max 0 (round1 lower),
          upper_bound = round1 upper,
          risk_level = get_risk_level ensemble_pred\<rparr>)"

text \<open>
  The loop of \<open>predict\<close> over the remaining values of \<open>range(hours)\<close>, with the rolling
  window and the list of predictions built so far. \<open>clock i\<close> is what \<open>datetime.now()\<close>
  returns in iteration \<open>i\<close>. The window that \<open>predict\<close> starts from has 24 rows and every
  iteration drops one row and appends one, so the last row exists.
\<close>

fun predict_loop ::
  "sequence_model \<Rightarrow> estimator \<Rightarrow> estimator \<Rightarrow> (int \<Rightarrow> datetime) \<Rightarrow> py_dict list \<Rightarrow> int \<Rightarrow>
   int list \<Rightarrow> feature_window \<Rightarrow> forecast_point list \<Rightarrow> py_error + forecast_point list" where
  "predict_loop lstm rf gb clock weather_forecast total_hours [] current_sequence predictions =
     Inr predictions"
| "predict_loop lstm rf gb clock weather_forecast total_hours (i # later) current_sequence predictions =
     (case lstm current_sequence of
        None \<Rightarrow> Inl Sequence_model_error
      | Some lstm_pred \<Rightarrow>
          (let recent_features = last current_sequence;
               rf_pred = safe_predict rf recent_features;
               gb_pred = safe_predict gb recent_features;
               ensemble_pred = 0.5 * lstm_pred + 0.3 * rf_pred + 0.2 * gb_pred;
               predictions' = predictions @ [prediction_entry i total_hours (clock i) ensemble_pred]
           in case create_feature_vector ensemble_pred i weather_forecast of
                Inl err \<Rightarrow> Inl err
              | Inr new_feature \<Rightarrow>
                  predict_loop lstm rf gb clock weather_forecast total_hours later
                    (tl current_sequence @ [new_feature]) predictions'))"

definition predict ::
  "sequence_model \<Rightarrow> estimator \<Rightarrow> estimator \<Rightarrow> (int \<Rightarrow> datetime) \<Rightarrow>
   py_dict list \<Rightarrow> py_dict list \<Rightarrow> int \<Rightarrow> py_error + forecast_point list" where
  "predict lstm rf gb clock historical_data weather_forecast total_hours =
     (let features = prepare_features historical_data weather_forecast;
          current_sequence = last_n sequence_length features
      in predict_loop lstm rf gb clock weather_forecast total_hours [0..total_hours - 1]
           current_sequence [])"

text \<open>Every field of a forecast point but its timestamp.\<close>

definition other_fields :: "forecast_point \<Rightarrow> int \<times> real \<times> real \<times> real \<times> real \<times> string" where
  "other_fields p = (hour p, predicted_aqi p, confidence p, lower_bound p, upper_bound p, risk_level p)"

text \<open>
  A forecast point is built by the loop when it is the dictionary of its own hour, for some
  ensemble value, at the clock reading of that iteration.
\<close>

definition built_by_loop :: "int \<Rightarrow> (int \<Rightarrow> datetime) \<Rightarrow> forecast_point \<Rightarrow> bool" where
  "built_by_loop n clock p = (\<exists>e. p = prediction_entry (hour p) n (clock (hour p)) e)"

section \<open>ml/prediction\_service.py: PredictionService.batch\_predict\<close>

record prediction_result =
  city :: string
  predictions :: "forecast_point list"
  model_accuracy :: real
  confidence_interval :: "int \<times> int"
  generated_at :: real

text \<open>
  \<open>asyncio.gather(*tasks)\<close> without \<open>return_exceptions\<close>: each task has ended with a
  result or has raised (\<open>None\<close>). When every task has a result, the results come back in the
  order of the tasks; when some task raised, the exception leaves the \<open>await\<close> and no list of
  results is returned.
\<close>

fun gather :: "'a option list \<Rightarrow> 'a list option" where
  "gather [] = Some []"
| "gather (task # tasks) =
     (case task of
        None \<Rightarrow> None
      | Some r \<Rightarrow> (case gather tasks of None \<Rightarrow> None | Some rs \<Rightarrow> Some (r # rs)))"

text \<open>
  \<open>batch_predict\<close>; its first argument is the outcome of awaiting
  \<open>get_predictions(city, hours)\<close>, \<open>None\<close> when that coroutine raises.
\<close>

definition batch_predict ::
  "(string \<Rightarrow> int \<Rightarrow> prediction_result option) \<Rightarrow> string list \<Rightarrow> int \<Rightarrow>
   (string \<rightharpoonup> prediction_result) option" where
  "batch_predict get_predictions cities total_hours =
     (case gather (map (\<lambda>c. get_predictions c total_hours) cities) of
        None \<Rightarrow> None
      | Some results \<Rightarrow> Some (foldl (\<lambda>d result. d(city result \<mapsto> result)) Map.empty results))"

section \<open>Auxiliary facts\<close>

lemma dd_get_touch: "dd_get (dd_touch d k) c = dd_get d c"
  by (simp add: dd_get_def dd_touch_def split: option.splits)

lemma dd_get_upd: "dd_get (d(k \<mapsto> xs)) c = (if c = k then xs else dd_get d c)"
  by (simp add: dd_get_def)

lemma check_verdict:
  "fst (check_rate_limit rl c now) =
     (if minute_count rl c now \<ge> rpm_limit rl then Denied (Per_minute_exceeded (rpm_limit rl))
      else if hour_count rl c now \<ge> rph_limit rl then Denied (Per_hour_exceeded (rph_limit rl))
      else Allowed)"
  by (simp add: check_rate_limit_def Let_def minute_count_def hour_count_def minute_window_def
      hour_window_def dd_get_touch)

lemma check_limits:
  "rpm_limit (snd (check_rate_limit rl c now)) = rpm_limit rl"
  "rph_limit (snd (check_rate_limit rl c now)) = rph_limit rl"
  by (simp_all add: check_rate_limit_def Let_def)

lemma check_denied_windows:
  assumes "fst (check_rate_limit rl c now) \<noteq> Allowed"
  shows "minute_window (snd (check_rate_limit rl c now)) c' = minute_window rl c'"
    and "hour_window (snd (check_rate_limit rl c now)) c' = hour_window rl c'"
    and "rpm_limit (snd (check_rate_limit rl c now)) = rpm_limit rl"
    and "rph_limit (snd (check_rate_limit rl c now)) = rph_limit rl"
  using assms
  by (simp_all add: check_rate_limit_def Let_def minute_window_def hour_window_def dd_get_touch
      split: if_splits)

lemma check_allowed_windows:
  assumes "fst (check_rate_limit rl c now) = Allowed"
  shows "minute_window (snd (check_rate_limit rl c now)) c' =
           (if c' = c then minute_window rl c @ [now] else minute_window rl c')"
    and "hour_window (snd (check_rate_limit rl c now)) c' =
           (if c' = c then hour_window rl c @ [now] else hour_window rl c')"
  using assms
  by (simp_all add: check_rate_limit_def Let_def minute_window_def hour_window_def dd_get_touch
      dd_get_upd split: if_splits)

lemma init_windows:
  "minute_window (init_rate_limiter a b) c = []" "hour_window (init_rate_limiter a b) c = []"
  by (simp_all add: init_rate_limiter_def minute_window_def hour_window_def dd_get_def)

lemma prune_window: "dd_get (prune cutoff d) c = filter (\<lambda>ts. ts > cutoff) (dd_get d c)"
  by (simp add: dd_get_def prune_def Let_def split: option.splits)

lemma cleanup_windows:
  "minute_window (cleanup_old_requests rl now) c = filter (\<lambda>ts. ts > now - minutes 2) (minute_window rl c)"
  "hour_window (cleanup_old_requests rl now) c = filter (\<lambda>ts. ts > now - hours_delta 2) (hour_window rl c)"
  by (simp_all add: cleanup_old_requests_def Let_def minute_window_def hour_window_def prune_window)

lemma filter_nested:
  assumes "mset xs \<subseteq># mset ys" and "\<And>x. P x \<Longrightarrow> Q x"
  shows "mset (filter P xs) \<subseteq># mset (filter Q ys)"
proof -
  have "filter_mset P (mset xs) \<subseteq># filter_mset Q (mset ys)"
    using assms by (intro filter_mset_mono_strong) auto
  then show ?thesis by simp
qed

lemma three_per_minute_scenario:
  assumes o: "t1 \<le> t2" "t2 \<le> t3" "t3 \<le> t4" "t4 < t1 + minutes 1" "t1 + minutes 1 \<le> t5"
      and h: "3 < rph"
  shows "successive_calls (init_rate_limiter 3 rph) c [t1, t2, t3, t4, t5] =
           [Allowed, Allowed, Allowed, Denied (Per_minute_exceeded 3), Allowed]"
proof -
  define s0 where "s0 = init_rate_limiter 3 rph"
  define s1 where "s1 = snd (check_rate_limit s0 c t1)"
  define s2 where "s2 = snd (check_rate_limit s1 c t2)"
  define s3 where "s3 = snd (check_rate_limit s2 c t3)"
  define s4 where "s4 = snd (check_rate_limit s3 c t4)"
  have l0: "rpm_limit s0 = 3" "rph_limit s0 = rph"
    by (simp_all add: s0_def init_rate_limiter_def)
  have l: "rpm_limit s1 = 3" "rph_limit s1 = rph" "rpm_limit s2 = 3" "rph_limit s2 = rph"
      "rpm_limit s3 = 3" "rph_limit s3 = rph" "rpm_limit s4 = 3" "rph_limit s4 = rph"
    by (simp_all add: s1_def s2_def s3_def s4_def check_limits l0)
  have w0: "minute_window s0 c = []" "hour_window s0 c = []"
    by (simp_all add: s0_def init_windows)
  have v1: "fst (check_rate_limit s0 c t1) = Allowed"
    using h by (simp add: check_verdict minute_count_def hour_count_def w0 l0)
  then have w1: "minute_window s1 c = [t1]" "hour_window s1 c = [t1]"
    by (simp_all add: s1_def check_allowed_windows w0)
  have v2: "fst (check_rate_limit s1 c t2) = Allowed"
    using h by (simp add: check_verdict minute_count_def hour_count_def w1 l)
  then have w2: "minute_window s2 c = [t1, t2]" "hour_window s2 c = [t1, t2]"
    by (simp_all add: s2_def check_allowed_windows w1)
  have v3: "fst (check_rate_limit s2 c t3) = Allowed"
    using h by (simp add: check_verdict minute_count_def hour_count_def w2 l)
  then have w3: "minute_window s3 c = [t1, t2, t3]" "hour_window s3 c = [t1, t2, t3]"
    by (simp_all add: s3_def check_allowed_windows w2)
  have v4: "fst (check_rate_limit s3 c t4) = Denied (Per_minute_exceeded 3)"
    using o by (simp add: check_verdict minute_count_def w3 l)
  then have w4: "minute_window s4 c = [t1, t2, t3]" "hour_window s4 c = [t1, t2, t3]"
    by (simp_all add: s4_def check_denied_windows w3)
  have v5: "fst (check_rate_limit s4 c t5) = Allowed"
    using o h by (simp add: check_verdict minute_count_def hour_count_def w4 l)
  show ?thesis
    using v1 v2 v3 v4 v5
    by (simp add: s0_def [symmetric] s1_def [symmetric] s2_def [symmetric]
        s3_def [symmetric] s4_def [symmetric])
qed

lemma store_sweep:
  "store (cleanup_sweep c s) key =
     (case store c key of
        None \<Rightarrow> None
      | Some entry \<Rightarrow> if s > entry_expiry entry then None else Some entry)"
  by (simp add: cleanup_sweep_def)

lemma store_sweeps:
  "store (foldl cleanup_sweep c sweeps) key =
     (case store c key of
        None \<Rightarrow> None
      | Some entry \<Rightarrow> if \<exists>s\<in>set sweeps. s > entry_expiry entry then None else Some entry)"
proof (induction sweeps arbitrary: c)
  case Nil
  then show ?case by (simp split: option.splits)
next
  case (Cons s sweeps)
  show ?case
    by (auto simp add: Cons.IH store_sweep split: option.splits)
qed

lemma pad_empty: "pad_features [] = replicate 24 (replicate 10 150)"
  by (simp add: sequence_length_def n_features_def eval_nat_numeral)

lemma length_pad_features:
  "length (pad_features features_list) = max sequence_length (length features_list)"
proof (induction features_list rule: pad_features.induct)
  case (1 features_list)
  show ?case
  proof (cases "length features_list < sequence_length")
    case True
    from "1.IH" [OF True] True show ?thesis
      by (subst pad_features.simps) (simp del: pad_features.simps)
  next
    case False
    then show ?thesis
      by (subst pad_features.simps) (simp del: pad_features.simps)
  qed
qed

lemma length_window:
  "length (last_n sequence_length (prepare_features historical_data weather_forecast)) = sequence_length"
  by (simp add: last_n_def prepare_features_def length_pad_features del: pad_features.simps)

lemma safe_predict_fallback:
  "safe_predict No_predict features = 150"
  "safe_predict (Predictor (\<lambda>f. None)) features = 150"
  "safe_predict (Predictor (\<lambda>f. Some y)) features = y"
  by (simp_all add: safe_predict_def)

lemma py_round_nonneg: "0 \<le> x \<Longrightarrow> 0 \<le> py_round x"
  by (auto simp add: py_round_def Let_def)

lemma round1_nonneg: "0 \<le> x \<Longrightarrow> 0 \<le> round1 x"
  by (simp add: round1_def py_round_nonneg)

lemma confidence_range: "70 \<le> calculate_confidence i n \<and> calculate_confidence i n \<le> 95"
  by (simp add: calculate_confidence_def Let_def)

lemma spread_nonneg: "0 \<le> (1 - calculate_confidence i n / 100) * 0.2"
  using confidence_range [of i n] by simp

lemma hour_entry: "hour (prediction_entry i n now e) = i"
  by (simp add: prediction_entry_def Let_def)

lemma timestamp_entry: "timestamp (prediction_entry i n now e) = now + hours_delta i"
  by (simp add: prediction_entry_def Let_def)

lemma other_fields_entry:
  "other_fields (prediction_entry i n now e) = other_fields (prediction_entry i n now' e)"
  by (simp add: prediction_entry_def other_fields_def Let_def)

lemma built_entry: "built_by_loop n clock (prediction_entry i n (clock i) e)"
  unfolding built_by_loop_def hour_entry by blast

lemma built_timestamp:
  "built_by_loop n clock p \<Longrightarrow> timestamp p = clock (hour p) + hours_delta (hour p)"
  unfolding built_by_loop_def using timestamp_entry by metis

lemma predict_loop_entries:
  assumes "predict_loop lstm rf gb clock weather n idx seq acc = Inr ps"
      and "\<forall>p\<in>set acc. built_by_loop n clock p"
  shows "\<forall>p\<in>set ps. built_by_loop n clock p"
  using assms
proof (induction idx arbitrary: seq acc)
  case Nil
  then show ?case by simp
next
  case (Cons i idx)
  from Cons.prems(1) obtain l where l: "lstm seq = Some l"
    by (auto split: option.splits)
  let ?e = "0.5 * l + 0.3 * safe_predict rf (last seq) + 0.2 * safe_predict gb (last seq)"
  from Cons.prems(1) l obtain nf where nf: "create_feature_vector ?e i weather = Inr nf"
    by (auto simp add: Let_def split: sum.splits)
  with Cons.prems(1) l have
    "predict_loop lstm rf gb clock weather n idx (tl seq @ [nf]) (acc @ [prediction_entry i n (clock i) ?e]) = Inr ps"
    by (simp add: Let_def)
  moreover have "\<forall>p\<in>set (acc @ [prediction_entry i n (clock i) ?e]). built_by_loop n clock p"
    using Cons.prems(2) by (simp add: built_entry)
  ultimately show ?case by (rule Cons.IH)
qed

lemma create_feature_vector_ok:
  assumes "weather \<noteq> []" and "0 \<le> h"
  shows "\<exists>v. create_feature_vector e h weather = Inr v"
  using assms by (cases weather) (auto simp add: create_feature_vector_def py_index_def Let_def)

lemma predict_loop_total:
  assumes "idx = [] \<or> weather \<noteq> []" and "\<forall>i\<in>set idx. 0 \<le> i" and "\<forall>w. lstm w \<noteq> None"
  shows "\<exists>ps. predict_loop lstm rf gb clock weather n idx seq acc = Inr (acc @ ps) \<and> map hour ps = idx"
  using assms
proof (induction idx arbitrary: seq acc)
  case Nil
  then show ?case by simp
next
  case (Cons i idx)
  from Cons.prems(3) obtain l where l: "lstm seq = Some l" by auto
  let ?e = "0.5 * l + 0.3 * safe_predict rf (last seq) + 0.2 * safe_predict gb (last seq)"
  from Cons.prems have weather: "weather \<noteq> []" and i: "0 \<le> i" by simp_all
  then obtain nf where nf: "create_feature_vector ?e i weather = Inr nf"
    using create_feature_vector_ok by blast
  have "\<exists>ps. predict_loop lstm rf gb clock weather n idx (tl seq @ [nf])
            (acc @ [prediction_entry i n (clock i) ?e]) = Inr ((acc @ [prediction_entry i n (clock i) ?e]) @ ps)
          \<and> map hour ps = idx"
    using Cons.prems weather by (intro Cons.IH) simp_all
  then obtain ps where ps: "predict_loop lstm rf gb clock weather n idx (tl seq @ [nf])
            (acc @ [prediction_entry i n (clock i) ?e]) = Inr ((acc @ [prediction_entry i n (clock i) ?e]) @ ps)"
     and h: "map hour ps = idx" by blast
  have a: "predict_loop lstm rf gb clock weather n (i # idx) seq acc = Inr (acc @ (prediction_entry i n (clock i) ?e # ps))"
    using l nf ps by (simp add: Let_def)
  have b: "map hour (prediction_entry i n (clock i) ?e # ps) = i # idx"
    using h by (simp add: hour_entry)
  from conjI [OF a b] show ?case by (rule exI)
qed

lemma predict_loop_clock:
  assumes "map other_fields acc1 = map other_fields acc2"
  shows "map_sum id (map other_fields) (predict_loop lstm rf gb clock1 weather n idx seq acc1) =
         map_sum id (map other_fields) (predict_loop lstm rf gb clock2 weather n idx seq acc2)"
  using assms
proof (induction idx arbitrary: seq acc1 acc2)
  case Nil
  then show ?case by simp
next
  case (Cons i idx)
  show ?case
  proof (cases "lstm seq")
    case None
    then show ?thesis by simp
  next
    case (Some l)
    let ?e = "0.5 * l + 0.3 * safe_predict rf (last seq) + 0.2 * safe_predict gb (last seq)"
    show ?thesis
    proof (cases "create_feature_vector ?e i weather")
      case (Inl err)
      with Some show ?thesis by (simp add: Let_def)
    next
      case (Inr nf)
      have "map other_fields (acc1 @ [prediction_entry i n (clock1 i) ?e]) =
            map other_fields (acc2 @ [prediction_entry i n (clock2 i) ?e])"
        using Cons.prems other_fields_entry [of i n "clock1 i" ?e "clock2 i"] by simp
      from Cons.IH [OF this] Some Inr show ?thesis by (simp add: Let_def)
    qed
  qed
qed

lemma upper_bound_below_zero:
  "map_sum id (map upper_bound)
     (predict (\<lambda>w. Some (- 200)) No_predict No_predict (\<lambda>i. 0) [] [Map.empty] 1) = Inr [- 25.3]"
  by (simp add: predict_def prepare_features_def last_n_def upto.simps safe_predict_def
      prediction_entry_def create_feature_vector_def py_index_def Let_def dict_get_def round1_def
      py_round_def calculate_confidence_def get_risk_level_def hours_delta_def pad_empty)

lemma gather_None: "gather (map f cs) = None \<longleftrightarrow> (\<exists>c\<in>set cs. f c = None)"
  by (induction cs) (auto split: option.splits)

lemma gather_Some: "gather tasks = Some rs \<Longrightarrow> tasks = map Some rs"
  by (induction tasks arbitrary: rs) (auto split: option.splits)

lemma find_app:
  "find P (xs @ ys) = (case find P xs of None \<Rightarrow> find P ys | Some x \<Rightarrow> Some x)"
  by (induction xs) simp_all

lemma find_Some_set: "find P xs = Some x \<Longrightarrow> x \<in> set xs \<and> P x"
  by (induction xs) (auto split: if_splits)

lemma find_None_set: "find P xs = None \<Longrightarrow> x \<in> set xs \<Longrightarrow> \<not> P x"
  by (induction xs) (auto split: if_splits)

lemma foldl_keyed:
  "foldl (\<lambda>d result. d(city result \<mapsto> result)) d0 rs k =
     (case find (\<lambda>r. city r = k) (rev rs) of None \<Rightarrow> d0 k | Some r \<Rightarrow> Some r)"
  by (induction rs arbitrary: d0) (auto simp add: find_app split: option.splits)

text \<open>
  What the loop of \<open>predict\<close> delivers when the sequence model returns a value on every
  window: one point per hour, with the hour offsets in order. The forecast has to hold a
  reading as soon as one hour is asked for, which a forecast of at least \<open>hours\<close> readings
  does.
\<close>

lemma predict_length_offsets:
  assumes "0 < n \<longrightarrow> weather \<noteq> []" and "\<forall>w. lstm w \<noteq> None"
  shows "\<exists>ps. predict lstm rf gb clock historical_data weather n = Inr ps
              \<and> int (length ps) = max 0 n \<and> map hour ps = [0..n - 1]"
proof -
  have "[0..n - 1] = [] \<or> weather \<noteq> []"
    using assms(1) by (cases "0 < n") simp_all
  moreover have "\<forall>i\<in>set [0..n - 1]. 0 \<le> i" by simp
  ultimately obtain ps where
    ps: "predict_loop lstm rf gb clock weather n [0..n - 1]
           (last_n sequence_length (prepare_features historical_data weather)) [] = Inr ([] @ ps)"
    and h: "map hour ps = [0..n - 1]"
    using predict_loop_total [OF _ _ assms(2)] by blast
  have "length ps = length [0..n - 1]"
    using h by (metis length_map)
  then have l: "int (length ps) = max 0 n" by simp
  have "predict lstm rf gb clock historical_data weather n = Inr ps"
    using ps by (simp add: predict_def Let_def)
  with l h show ?thesis by blast
qed

lemma predict_length_offsets_contract:
  assumes "n \<le> int (length weather)" and "\<forall>w. lstm w \<noteq> None"
  shows "\<exists>ps. predict lstm rf gb clock historical_data weather n = Inr ps
              \<and> int (length ps) = max 0 n \<and> map hour ps = [0..n - 1]"
proof (rule predict_length_offsets)
  show "0 < n \<longrightarrow> weather \<noteq> []"
    using assms(1) by auto
  show "\<forall>w. lstm w \<noteq> None"
    by (rule assms(2))
qed

lemma predict_length_offsets_example:
  "map_sum id (map hour)
     (predict (\<lambda>w. Some 100) No_predict No_predict (\<lambda>i. 0) [] [Map.empty, Map.empty] 2)
   = Inr [0, 1]"
  using predict_length_offsets_contract
    [of 2 "[Map.empty, Map.empty]" "\<lambda>w. Some 100" No_predict No_predict "\<lambda>i. 0" "[]"]
  by (auto simp add: upto.simps)

section \<open>The claims\<close>

subsection \<open>C1\<close>

text \<open>
  Claim C1 (Cache.get, Cache.set, the cleanup sweep), as the code has it. After
  \<open>set(key, v, ttl)\<close> at time \<open>now\<close>, and after any number of cleanup sweeps none of which runs
  later than the read, \<open>get(key)\<close> at time \<open>now'\<close> returns \<open>v\<close> as long as at most \<open>ttl\<close> seconds
  have passed, the instant of expiry included, and returns absent once more than \<open>ttl\<close>
  seconds have passed; the expired entry is then gone from the store. A missing \<open>ttl\<close> is the
  default of the cache.
\<close>

theorem cache_ttl_inclusive:
  assumes "\<forall>s\<in>set sweeps. s \<le> now'"
  shows "fst (get_cache (foldl cleanup_sweep (set_cache c key v ttl now) sweeps) key now') =
           (if now' - now \<le> seconds (case ttl of None \<Rightarrow> default_ttl c | Some t \<Rightarrow> t)
            then Some v else None)
         \<and> (now' - now > seconds (case ttl of None \<Rightarrow> default_ttl c | Some t \<Rightarrow> t) \<longrightarrow>
              store (snd (get_cache (foldl cleanup_sweep (set_cache c key v ttl now) sweeps) key now'))
                key = None)"
proof -
  let ?e = "now + seconds (case ttl of None \<Rightarrow> default_ttl c | Some t \<Rightarrow> t)"
  have s: "store (set_cache c key v ttl now) key = Some \<lparr>entry_value = v, entry_expiry = ?e\<rparr>"
    by (simp add: set_cache_def Let_def)
  have "\<not> ?e < now' \<Longrightarrow> \<not> (\<exists>s\<in>set sweeps. ?e < s)"
    using assms by fastforce
  then show ?thesis
    by (auto simp add: get_cache_def store_sweeps s split: option.splits)
qed

theorem cache_ttl_inclusive_witness:
  "fst (get_cache (foldl cleanup_sweep (set_cache (init_cache 3600) ''Delhi_48'' (7::nat) (Some 5) 0)
          [3000000, 4000000]) ''Delhi_48'' 5000000) = Some 7 \<and>
   fst (get_cache (foldl cleanup_sweep (set_cache (init_cache 3600) ''Delhi_48'' (7::nat) None 0)
          []) ''Delhi_48'' 3600000001) = None"
  using cache_ttl_inclusive [of "[3000000, 4000000]" 5000000 "init_cache 3600" "''Delhi_48''" "7::nat" "Some 5" 0]
    cache_ttl_inclusive [of "[]" 3600000001 "init_cache 3600" "''Delhi_48''" "7::nat" None 0]
  by (simp add: seconds_def init_cache_def)

text \<open>
  The claim puts the instant of expiry on the other side: exactly \<open>ttl\<close> seconds after the
  set, \<open>get\<close> still returns the value, since the test of the source is \<open>now > expiry\<close>.
\<close>

theorem cache_ttl_boundary_counterexample:
  "fst (get_cache (set_cache (init_cache 3600) ''Delhi_48'' (7::nat) (Some 5) 0) ''Delhi_48''
         (0 + seconds 5)) = Some 7"
  by (simp add: get_cache_def set_cache_def init_cache_def seconds_def)

subsection \<open>C2\<close>

text \<open>
  Claim C2 (estimator failures fall back to 150.0). The two point estimators go through
  \<open>_safe_predict\<close> (lemma \<open>safe_predict_fallback\<close>), the sequence model does not: when its call
  raises in the first iteration, with both point estimators working, \<open>predict\<close> raises too and
  returns no prediction list.
\<close>

theorem predict_sequence_model_failure:
  "predict (\<lambda>w. None) (Predictor (\<lambda>f. Some 120)) (Predictor (\<lambda>f. Some 130)) (\<lambda>i. 0) [] [Map.empty] 1
     = Inl Sequence_model_error"
  by (simp add: predict_def prepare_features_def last_n_def upto.simps pad_empty)

subsection \<open>C3\<close>

text \<open>
  Claim C3 (reported values of each forecast point), as the code has it. The point estimate
  is the ensemble value rounded to one decimal and floored at 0; the lower bound is
  \<open>ensemble * (1 - spread)\<close> rounded to one decimal and floored at 0, with
  \<open>spread = (1 - confidence / 100) * 0.2\<close>; both are non-negative for every input. For a
  non-negative ensemble value the upper bound is \<open>ensemble * (1 + spread)\<close> rounded to one
  decimal, which is then non-negative and equal to its floor at 0. Every point that \<open>predict\<close>
  returns is such a dictionary of its hour.
\<close>

theorem forecast_values_rounded_floored:
  "predicted_aqi (prediction_entry i n now e) = max 0 (round1 e)
   \<and> lower_bound (prediction_entry i n now e) =
       max 0 (round1 (e * (1 - (1 - calculate_confidence i n / 100) * 0.2)))
   \<and> 0 \<le> predicted_aqi (prediction_entry i n now e)
   \<and> 0 \<le> lower_bound (prediction_entry i n now e)
   \<and> (0 \<le> e \<longrightarrow>
        upper_bound (prediction_entry i n now e) =
          max 0 (round1 (e * (1 + (1 - calculate_confidence i n / 100) * 0.2)))
        \<and> 0 \<le> upper_bound (prediction_entry i n now e))
   \<and> (predict lstm rf gb clock historical_data weather n = Inr ps \<longrightarrow>
        (\<forall>p\<in>set ps. built_by_loop n clock p))"
proof (intro conjI impI)
  assume e: "0 \<le> e"
  have "0 \<le> e * (1 + (1 - calculate_confidence i n / 100) * 0.2)"
    using e spread_nonneg [of i n] by (intro mult_nonneg_nonneg) simp_all
  then have r: "0 \<le> round1 (e * (1 + (1 - calculate_confidence i n / 100) * 0.2))"
    by (rule round1_nonneg)
  then show "upper_bound (prediction_entry i n now e) =
          max 0 (round1 (e * (1 + (1 - calculate_confidence i n / 100) * 0.2)))"
    by (simp add: prediction_entry_def Let_def)
  from r show "0 \<le> upper_bound (prediction_entry i n now e)"
    by (simp add: prediction_entry_def Let_def)
next
  assume "predict lstm rf gb clock historical_data weather n = Inr ps"
  then show "\<forall>p\<in>set ps. built_by_loop n clock p"
    unfolding predict_def Let_def by (rule predict_loop_entries) simp
qed (simp_all add: prediction_entry_def Let_def)

theorem forecast_values_rounded_floored_witness:
  "(0::real) \<le> 150
   \<and> upper_bound (prediction_entry 0 48 0 150) = 151.8
   \<and> predict (\<lambda>w. Some 150) No_predict No_predict (\<lambda>i. 0) [] [Map.empty] 1
       = Inr [prediction_entry 0 1 0 150]
   \<and> built_by_loop 1 (\<lambda>i. 0) (prediction_entry 0 1 0 150)"
proof -
  have p: "predict (\<lambda>w. Some 150) No_predict No_predict (\<lambda>i. 0) [] [Map.empty] 1
       = Inr [prediction_entry 0 1 0 150]"
    by (simp add: predict_def prepare_features_def last_n_def pad_empty upto.simps
        safe_predict_def create_feature_vector_def py_index_def Let_def)
  have u: "upper_bound (prediction_entry 0 48 0 150) = 151.8"
    using forecast_values_rounded_floored [of 0 48 0 150]
    by (simp add: calculate_confidence_def round1_def py_round_def Let_def)
  have b: "\<forall>p\<in>set [prediction_entry 0 1 0 150]. built_by_loop 1 (\<lambda>i. 0) p"
    using p forecast_values_rounded_floored [of 0 1 0 150 "\<lambda>w. Some 150" No_predict No_predict
      "\<lambda>i. 0" "[]" "[Map.empty]" "[prediction_entry 0 1 0 150]"]
    by blast
  from p u b show ?thesis by simp
qed

text \<open>
  The claim leaves the rounding out: with an ensemble value of 125.04 the reported point
  estimate is 125.0, not \<open>max(0, 125.04)\<close>.
\<close>

theorem forecast_values_unrounded_counterexample:
  "map_sum id (map predicted_aqi)
     (predict (\<lambda>w. Some 100.08) No_predict No_predict (\<lambda>i. 0) [] [Map.empty] 1) = Inr [125]
   \<and> max 0 (0.5 * 100.08 + 0.3 * safe_predict No_predict [] + 0.2 * safe_predict No_predict [])
       = (125.04 :: real)"
  by (simp add: predict_def prepare_features_def last_n_def upto.simps safe_predict_def 
   prediction_entry_def create_feature_vector_def py_index_def Let_def dict_get_def round1_def
   py_round_def calculate_confidence_def get_risk_level_def hours_delta_def pad_empty)

subsection \<open>C4\<close>

text \<open>
  Claim C4 (the decision of \<open>check_rate_limit\<close>). The request is denied exactly when the
  client's minute bucket holds at least \<open>rpm_limit\<close> timestamps of the trailing minute or its
  hour bucket at least \<open>rph_limit\<close> timestamps of the trailing hour. The minute test comes
  first: whenever it fails, the per-minute exception is the one raised, also when the hour
  test would fail too; the per-hour exception is raised only when the minute test passes.
  With a limit of 3 per minute, three calls of one client within a minute are allowed, a
  fourth within that minute is denied, and a call a minute or more after the first is
  allowed again.
\<close>

theorem check_rate_limit_decision:
  "(fst (check_rate_limit rl c now) \<noteq> Allowed \<longleftrightarrow>
      minute_count rl c now \<ge> rpm_limit rl \<or> hour_count rl c now \<ge> rph_limit rl)
   \<and> (minute_count rl c now \<ge> rpm_limit rl \<longrightarrow>
        fst (check_rate_limit rl c now) = Denied (Per_minute_exceeded (rpm_limit rl)))
   \<and> (minute_count rl c now < rpm_limit rl \<and> hour_count rl c now \<ge> rph_limit rl \<longrightarrow>
        fst (check_rate_limit rl c now) = Denied (Per_hour_exceeded (rph_limit rl)))
   \<and> (t1 \<le> t2 \<and> t2 \<le> t3 \<and> t3 \<le> t4 \<and> t4 < t1 + minutes 1 \<and> t1 + minutes 1 \<le> t5 \<and> 3 < rph \<longrightarrow>
        successive_calls (init_rate_limiter 3 rph) c [t1, t2, t3, t4, t5] =
          [Allowed, Allowed, Allowed, Denied (Per_minute_exceeded 3), Allowed])"
proof (intro conjI impI)
  assume "t1 \<le> t2 \<and> t2 \<le> t3 \<and> t3 \<le> t4 \<and> t4 < t1 + minutes 1 \<and> t1 + minutes 1 \<le> t5 \<and> 3 < rph"
  then show "successive_calls (init_rate_limiter 3 rph) c [t1, t2, t3, t4, t5] =
          [Allowed, Allowed, Allowed, Denied (Per_minute_exceeded 3), Allowed]"
    by (intro three_per_minute_scenario) simp_all
qed (simp_all add: check_verdict)

theorem check_rate_limit_decision_witness:
  "minute_count \<lparr>rpm_limit = 3, rph_limit = 2,
       minute_buckets = [''10.0.0.1'' \<mapsto> [1, 2, 3]], hour_buckets = [''10.0.0.1'' \<mapsto> [1, 2, 3]]\<rparr>
     ''10.0.0.1'' 10 \<ge> 3
   \<and> hour_count \<lparr>rpm_limit = 3, rph_limit = 2,
       minute_buckets = [''10.0.0.1'' \<mapsto> [1, 2, 3]], hour_buckets = [''10.0.0.1'' \<mapsto> [1, 2, 3]]\<rparr>
     ''10.0.0.1'' 10 \<ge> 2
   \<and> fst (check_rate_limit \<lparr>rpm_limit = 3, rph_limit = 2,
       minute_buckets = [''10.0.0.1'' \<mapsto> [1, 2, 3]], hour_buckets = [''10.0.0.1'' \<mapsto> [1, 2, 3]]\<rparr>
     ''10.0.0.1'' 10) = Denied (Per_minute_exceeded 3)
   \<and> (0::int) \<le> 10000000 \<and> (30000000::int) < 0 + minutes 1 \<and> 0 + minutes 1 \<le> (61000000::int)
   \<and> successive_calls (init_rate_limiter 3 1000) ''10.0.0.1''
         [0, 10000000, 20000000, 30000000, 61000000] =
       [Allowed, Allowed, Allowed, Denied (Per_minute_exceeded 3), Allowed]"
  using check_rate_limit_decision [of "\<lparr>rpm_limit = 3, rph_limit = 2,
       minute_buckets = [''10.0.0.1'' \<mapsto> [1, 2, 3]], hour_buckets = [''10.0.0.1'' \<mapsto> [1, 2, 3]]\<rparr>"
       "''10.0.0.1''" 10 0 10000000 20000000 30000000 61000000 1000]
  by (simp add: minute_count_def hour_count_def minute_window_def hour_window_def dd_get_def
      minutes_def hours_delta_def)

subsection \<open>C5\<close>

text \<open>
  Claim C5 (what \<open>check_rate_limit\<close> records). An allowed call appends the current timestamp
  to the minute window and to the hour window of the client and leaves every other client's
  windows as they were. A denied call leaves every window of every client and both limits as
  they were; when the client has an entry in both bucket dictionaries, the limiter after the
  call is the limiter before it. (For a client without an entry, the read of the
  \<open>defaultdict\<close> stores an empty list, which is the same empty window.)
\<close>

theorem check_rate_limit_records:
  "(fst (check_rate_limit rl c now) = Allowed \<longrightarrow>
      (\<forall>c'. minute_window (snd (check_rate_limit rl c now)) c' =
              (if c' = c then minute_window rl c @ [now] else minute_window rl c')) \<and>
      (\<forall>c'. hour_window (snd (check_rate_limit rl c now)) c' =
              (if c' = c then hour_window rl c @ [now] else hour_window rl c')))
   \<and> (fst (check_rate_limit rl c now) \<noteq> Allowed \<longrightarrow>
      (\<forall>c'. minute_window (snd (check_rate_limit rl c now)) c' = minute_window rl c') \<and>
      (\<forall>c'. hour_window (snd (check_rate_limit rl c now)) c' = hour_window rl c') \<and>
      rpm_limit (snd (check_rate_limit rl c now)) = rpm_limit rl \<and>
      rph_limit (snd (check_rate_limit rl c now)) = rph_limit rl \<and>
      (c \<in> dom (minute_buckets rl) \<and> c \<in> dom (hour_buckets rl) \<longrightarrow>
         snd (check_rate_limit rl c now) = rl))"
proof (intro conjI impI allI)
  assume d: "fst (check_rate_limit rl c now) \<noteq> Allowed"
     and k: "c \<in> dom (minute_buckets rl) \<and> c \<in> dom (hour_buckets rl)"
  from k have "dd_touch (minute_buckets rl) c = minute_buckets rl"
      "dd_touch (hour_buckets rl) c = hour_buckets rl"
    by (auto simp: dd_touch_def)
  with d show "snd (check_rate_limit rl c now) = rl"
    by (simp add: check_rate_limit_def Let_def split: if_splits)
qed (simp_all add: check_allowed_windows check_denied_windows)

theorem check_rate_limit_records_witness:
  "fst (check_rate_limit (init_rate_limiter 1 1000) ''10.0.0.1'' 0) = Allowed
   \<and> minute_window (snd (check_rate_limit (init_rate_limiter 1 1000) ''10.0.0.1'' 0)) ''10.0.0.1'' = [0]
   \<and> hour_window (snd (check_rate_limit (init_rate_limiter 1 1000) ''10.0.0.1'' 0)) ''10.0.0.1'' = [0]
   \<and> fst (check_rate_limit \<lparr>rpm_limit = 1, rph_limit = 1000,
          minute_buckets = [''10.0.0.1'' \<mapsto> [0]], hour_buckets = [''10.0.0.1'' \<mapsto> [0]]\<rparr>
        ''10.0.0.1'' 5) \<noteq> Allowed
   \<and> snd (check_rate_limit \<lparr>rpm_limit = 1, rph_limit = 1000,
          minute_buckets = [''10.0.0.1'' \<mapsto> [0]], hour_buckets = [''10.0.0.1'' \<mapsto> [0]]\<rparr>
        ''10.0.0.1'' 5) =
       \<lparr>rpm_limit = 1, rph_limit = 1000,
          minute_buckets = [''10.0.0.1'' \<mapsto> [0]], hour_buckets = [''10.0.0.1'' \<mapsto> [0]]\<rparr>"
  using check_rate_limit_records [of "init_rate_limiter 1 1000" "''10.0.0.1''" 0]
    check_rate_limit_records [of "\<lparr>rpm_limit = 1, rph_limit = 1000,
          minute_buckets = [''10.0.0.1'' \<mapsto> [0]], hour_buckets = [''10.0.0.1'' \<mapsto> [0]]\<rparr>"
        "''10.0.0.1''" 5]
  by (simp add: check_verdict minute_count_def hour_count_def minute_window_def hour_window_def
      dd_get_def init_rate_limiter_def minutes_def hours_delta_def)

subsection \<open>C6\<close>

text \<open>
  Claim C6 (length and hour offsets of the forecast). With a weather forecast of at least
  \<open>hours\<close> readings, \<open>predict\<close> returns exactly \<open>hours\<close> points with the hour offsets
  \<open>0, 1, ..., hours - 1\<close> as long as the sequence model returns a value on every window
  (lemma \<open>predict_length_offsets_contract\<close>). The call of the sequence model is not guarded,
  though: with two hours asked for and a forecast of two readings, a sequence model that
  raises makes \<open>predict\<close> raise, and no list of two points is returned.
\<close>

theorem predict_no_points_when_sequence_model_raises:
  "predict (\<lambda>w. None) (Predictor (\<lambda>f. Some 120)) (Predictor (\<lambda>f. Some 130)) (\<lambda>i. 0) []
     [Map.empty, Map.empty] 2 = Inl Sequence_model_error"
  by (simp add: predict_def prepare_features_def last_n_def upto.simps pad_empty)

subsection \<open>C7\<close>

text \<open>
  Claim C7 (\<open>batch_predict\<close>), as the code has it. One \<open>get_predictions\<close> is issued per city.
  \<open>batch_predict\<close> fails exactly when the forecast of some city of the list fails, and then
  returns no mapping at all. When every city's forecast succeeds, each result carrying its
  city's name, the returned mapping has exactly the cities of the list as keys and sends each
  city to its result.
\<close>

theorem batch_predict_all_or_nothing:
  "(batch_predict get_predictions cities n = None \<longleftrightarrow>
      (\<exists>c\<in>set cities. get_predictions c n = None))
   \<and> ((\<forall>c\<in>set cities. \<exists>r. get_predictions c n = Some r \<and> city r = c) \<longrightarrow>
        (\<exists>m. batch_predict get_predictions cities n = Some m \<and> dom m = set cities
             \<and> (\<forall>c\<in>set cities. m c = get_predictions c n)))"
proof (intro conjI impI)
  show "batch_predict get_predictions cities n = None \<longleftrightarrow>
      (\<exists>c\<in>set cities. get_predictions c n = None)"
  proof -
    have "batch_predict get_predictions cities n = None \<longleftrightarrow>
          gather (map (\<lambda>c. get_predictions c n) cities) = None"
      by (simp add: batch_predict_def split: option.splits)
    then show ?thesis by (simp only: gather_None)
  qed
next
  assume ok: "\<forall>c\<in>set cities. \<exists>r. get_predictions c n = Some r \<and> city r = c"
  then have "gather (map (\<lambda>c. get_predictions c n) cities) \<noteq> None"
    unfolding gather_None by auto
  then obtain rs where rs: "gather (map (\<lambda>c. get_predictions c n) cities) = Some rs"
    by blast
  then have eq: "map (\<lambda>c. get_predictions c n) cities = map Some rs"
    by (rule gather_Some)
  define m where "m = foldl (\<lambda>d result. d(city result \<mapsto> result)) Map.empty rs"
  have b: "batch_predict get_predictions cities n = Some m"
    by (simp add: batch_predict_def rs m_def)
  have rs_eq: "rs = map (\<lambda>c. the (get_predictions c n)) cities"
  proof -
    have "map the (map (\<lambda>c. get_predictions c n) cities) = map the (map Some rs)"
      using eq by simp
    then show ?thesis by (simp add: comp_def)
  qed
  have mem: "the (get_predictions c n) \<in> set rs" if "c \<in> set cities" for c
    using that by (simp add: rs_eq)
  have look: "m k = (if k \<in> set cities then get_predictions k n else None)" for k
  proof (cases "find (\<lambda>r. city r = k) (rev rs)")
    case None
    have "k \<notin> set cities"
    proof
      assume k: "k \<in> set cities"
      with ok obtain r where r: "get_predictions k n = Some r" "city r = k" by blast
      from mem [OF k] r have "r \<in> set (rev rs)" by simp
      from find_None_set [OF None this] r show False by simp
    qed
    with None show ?thesis by (simp add: m_def foldl_keyed)
  next
    case (Some r)
    from find_Some_set [OF Some] have r: "r \<in> set rs" "city r = k" by simp_all
    from r(1) obtain c where c: "c \<in> set cities" "r = the (get_predictions c n)"
      unfolding rs_eq by auto
    from ok c(1) obtain r' where r': "get_predictions c n = Some r'" "city r' = c" by blast
    from c(2) r'(1) have rr: "r = r'" by simp
    from rr r'(2) r(2) have ck: "c = k" by simp
    from r'(1) rr ck have g: "get_predictions k n = Some r" by simp
    from c(1) ck have kin: "k \<in> set cities" by simp
    from Some g kin show ?thesis by (simp add: m_def foldl_keyed)
  qed
  have "dom m = set cities"
  proof
    show "dom m \<subseteq> set cities"
      by (auto simp add: look dom_def split: if_splits)
    show "set cities \<subseteq> dom m"
    proof
      fix c assume c: "c \<in> set cities"
      with ok obtain r where "get_predictions c n = Some r" by blast
      with c show "c \<in> dom m" by (simp add: look dom_def)
    qed
  qed
  moreover have "\<forall>c\<in>set cities. m c = get_predictions c n"
    by (simp add: look)
  ultimately show "\<exists>m. batch_predict get_predictions cities n = Some m \<and> dom m = set cities
             \<and> (\<forall>c\<in>set cities. m c = get_predictions c n)"
    using b by blast
qed

theorem batch_predict_all_or_nothing_witness:
  "map_option dom
     (batch_predict
        (\<lambda>c h. Some \<lparr>city = c, predictions = [], model_accuracy = 94.3,
                       confidence_interval = (85, 15), generated_at = 0\<rparr>)
        [''Delhi'', ''Mumbai''] 48) = Some {''Delhi'', ''Mumbai''}
   \<and> batch_predict
        (\<lambda>c h. if c = ''Mumbai'' then None
               else Some \<lparr>city = c, predictions = [], model_accuracy = 94.3,
                       confidence_interval = (85, 15), generated_at = 0\<rparr>)
        [''Delhi'', ''Mumbai'', ''Pune''] 48 = None"
  using batch_predict_all_or_nothing
      [of "\<lambda>c h. Some \<lparr>city = c, predictions = [], model_accuracy = 94.3,
                       confidence_interval = (85, 15), generated_at = 0\<rparr>"
          "[''Delhi'', ''Mumbai'']" 48]
    batch_predict_all_or_nothing
      [of "\<lambda>c h. if c = ''Mumbai'' then None
               else Some \<lparr>city = c, predictions = [], model_accuracy = 94.3,
                       confidence_interval = (85, 15), generated_at = 0\<rparr>"
          "[''Delhi'', ''Mumbai'', ''Pune'']" 48]
  by auto

text \<open>
  The claim promises the other cities' results when one city fails: with Delhi succeeding
  and Mumbai failing, \<open>batch_predict\<close> raises and Delhi's result is not reported.
\<close>

theorem batch_predict_failure_counterexample:
  "(if ''Delhi'' = ''Mumbai'' then None
    else Some \<lparr>city = ''Delhi'', predictions = [], model_accuracy = 94.3,
                confidence_interval = (85, 15), generated_at = 0\<rparr>) \<noteq> None
   \<and> batch_predict
        (\<lambda>c h. if c = ''Mumbai'' then None
               else Some \<lparr>city = c, predictions = [], model_accuracy = 94.3,
                       confidence_interval = (85, 15), generated_at = 0\<rparr>)
        [''Delhi'', ''Mumbai''] 48 = None"
  by (simp add: batch_predict_def)

subsection \<open>C8\<close>

text \<open>
  Claim C8 (reproducibility of \<open>predict\<close>), as the code has it. Two runs on the same history,
  weather forecast and number of hours, with the same estimators, agree on the outcome and on
  every field of every returned point other than the timestamp. The timestamp of the point of
  hour \<open>i\<close> is the reading of the clock in iteration \<open>i\<close> plus \<open>i\<close> hours.
\<close>

theorem predict_reproducible_up_to_clock:
  "map_sum id (map other_fields) (predict lstm rf gb clock1 historical_data weather n) =
   map_sum id (map other_fields) (predict lstm rf gb clock2 historical_data weather n)
   \<and> map_sum id (map timestamp) (predict lstm rf gb clock1 historical_data weather n) =
     map_sum id (map (\<lambda>p. clock1 (hour p) + hours_delta (hour p)))
       (predict lstm rf gb clock1 historical_data weather n)"
proof
  show "map_sum id (map other_fields) (predict lstm rf gb clock1 historical_data weather n) =
   map_sum id (map other_fields) (predict lstm rf gb clock2 historical_data weather n)"
    unfolding predict_def Let_def by (rule predict_loop_clock) simp
next
  show "map_sum id (map timestamp) (predict lstm rf gb clock1 historical_data weather n) =
     map_sum id (map (\<lambda>p. clock1 (hour p) + hours_delta (hour p)))
       (predict lstm rf gb clock1 historical_data weather n)"
  proof (cases "predict lstm rf gb clock1 historical_data weather n")
    case (Inl err)
    then show ?thesis by simp
  next
    case (Inr ps)
    then have "\<forall>p\<in>set ps. built_by_loop n clock1 p"
      unfolding predict_def Let_def by (rule predict_loop_entries) simp
    then have "\<forall>p\<in>set ps. timestamp p = clock1 (hour p) + hours_delta (hour p)"
      using built_timestamp by blast
    with Inr show ?thesis by simp
  qed
qed

text \<open>
  The claim includes the timestamp: two runs on the same inputs that read different clock
  values return different lists.
\<close>

theorem predict_timestamp_counterexample:
  "predict (\<lambda>w. Some 100) No_predict No_predict (\<lambda>i. 0) [] [Map.empty] 1
   \<noteq> predict (\<lambda>w. Some 100) No_predict No_predict (\<lambda>i. 1) [] [Map.empty] 1"
  by (simp add: predict_def prepare_features_def last_n_def upto.simps safe_predict_def 
   prediction_entry_def create_feature_vector_def py_index_def Let_def  pad_empty)

subsection \<open>C9\<close>

text \<open>
  Claim C9 (risk level). The risk level of a forecast point is \<open>_get_risk_level\<close> of the
  unrounded ensemble value, a step function: at most 50 is Good, above 50 and at most 100 is
  Moderate, above 100 and at most 200 is Poor, above 200 and at most 300 is Very Poor, and
  everything above 300 is Severe. Exactly 50 is Good, 50.01 is Moderate, exactly 300 is Very
  Poor and 300.01 is Severe.
\<close>

theorem get_risk_level_bands:
  "(aqi \<le> 50 \<longrightarrow> get_risk_level aqi = ''Good'')
   \<and> (50 < aqi \<and> aqi \<le> 100 \<longrightarrow> get_risk_level aqi = ''Moderate'')
   \<and> (100 < aqi \<and> aqi \<le> 200 \<longrightarrow> get_risk_level aqi = ''Poor'')
   \<and> (200 < aqi \<and> aqi \<le> 300 \<longrightarrow> get_risk_level aqi = ''Very Poor'')
   \<and> (300 < aqi \<longrightarrow> get_risk_level aqi = ''Severe'')
   \<and> get_risk_level 50 = ''Good'' \<and> get_risk_level 50.01 = ''Moderate''
   \<and> get_risk_level 300 = ''Very Poor'' \<and> get_risk_level 300.01 = ''Severe''
   \<and> risk_level (prediction_entry i n now aqi) = get_risk_level aqi"
  by (simp add: get_risk_level_def prediction_entry_def Let_def)

theorem get_risk_level_bands_witness:
  "get_risk_level 12 = ''Good'' \<and> get_risk_level 75 = ''Moderate'' \<and> get_risk_level 150 = ''Poor''
   \<and> get_risk_level 250 = ''Very Poor'' \<and> get_risk_level 420 = ''Severe''"
  using get_risk_level_bands [of 12] get_risk_level_bands [of 75] get_risk_level_bands [of 150]
    get_risk_level_bands [of 250] get_risk_level_bands [of 420]
  by simp

subsection \<open>C10\<close>

text \<open>
  Claim C10 (bucket invariant). For every client the minute window is a sub-multiset of the
  hour window. This holds for a new limiter, and it is preserved by every
  \<open>check_rate_limit\<close> call and by every \<open>_cleanup_old_requests\<close> pass, whose two-minute cutoff
  for the minute bucket is later than its two-hour cutoff for the hour bucket.
\<close>

theorem buckets_nested_invariant:
  "buckets_nested (init_rate_limiter a b)
   \<and> (buckets_nested rl \<longrightarrow> buckets_nested (snd (check_rate_limit rl c now)))
   \<and> (buckets_nested rl \<longrightarrow> buckets_nested (cleanup_old_requests rl now))"
proof (intro conjI impI)
  show "buckets_nested (init_rate_limiter a b)"
    by (simp add: buckets_nested_def init_windows)
next
  assume inv: "buckets_nested rl"
  show "buckets_nested (snd (check_rate_limit rl c now))"
  proof (cases "fst (check_rate_limit rl c now) = Allowed")
    case True
    with inv show ?thesis
      by (simp add: buckets_nested_def check_allowed_windows)
  next
    case False
    with inv show ?thesis
      by (simp add: buckets_nested_def check_denied_windows)
  qed
next
  assume inv: "buckets_nested rl"
  have "now - hours_delta 2 \<le> now - minutes 2"
    by (simp add: hours_delta_def minutes_def)
  then have "\<And>ts. now - minutes 2 < ts \<Longrightarrow> now - hours_delta 2 < ts"
    by linarith
  with inv show "buckets_nested (cleanup_old_requests rl now)"
    unfolding buckets_nested_def cleanup_windows
    by (intro allI filter_nested) auto
qed

theorem buckets_nested_invariant_witness:
  "buckets_nested (init_rate_limiter 60 1000)
   \<and> buckets_nested (snd (check_rate_limit (init_rate_limiter 60 1000) ''10.0.0.1'' 0))
   \<and> buckets_nested (cleanup_old_requests
        (snd (check_rate_limit (init_rate_limiter 60 1000) ''10.0.0.1'' 0)) 130000000)"
proof -
  have a: "buckets_nested (init_rate_limiter 60 1000)"
    using buckets_nested_invariant [of 60 1000] by simp
  have b: "buckets_nested (snd (check_rate_limit (init_rate_limiter 60 1000) ''10.0.0.1'' 0))"
    using a buckets_nested_invariant [of 60 1000 "init_rate_limiter 60 1000" "''10.0.0.1''" 0] by simp
  have c: "buckets_nested (cleanup_old_requests
        (snd (check_rate_limit (init_rate_limiter 60 1000) ''10.0.0.1'' 0)) 130000000)"
    using b buckets_nested_invariant [of 60 1000
        "snd (check_rate_limit (init_rate_limiter 60 1000) ''10.0.0.1'' 0)" "''10.0.0.1''" 130000000]
    by simp
  from a b c show ?thesis by simp
qed

end
